theory Spec2Isabelle
  imports Complex_Main
begin

section \<open>Values, exceptions and the driver interface\<close>

text \<open>
  The program is \<^verbatim>\<open>gpio_controller.py\<close>: a class \<^verbatim>\<open>GPIOController\<close> that keeps a set
  of configured pins and a dictionary of cached levels, guarded by one
  \<^verbatim>\<open>threading.Lock\<close>, and that talks to a module-level driver object \<^verbatim>\<open>GPIO\<close>
  (the library \<^verbatim>\<open>RPi.GPIO\<close>, or the class \<^verbatim>\<open>MockGPIO\<close> of the same file when the
  import fails).

  Levels are the integers of the source: \<^verbatim>\<open>GPIO.HIGH = 1\<close> and \<^verbatim>\<open>GPIO.LOW = 0\<close>.
\<close>

abbreviation HIGH :: int where "HIGH \<equiv> 1"
abbreviation LOW :: int where "LOW \<equiv> 0"

datatype numbering = BCM
datatype direction = OUT | IN

text \<open>
  Exceptions are values. \<open>ValueError_pin\<close> is the \<^verbatim>\<open>ValueError(f"Pin {pin} not configured")\<close>
  of \<^verbatim>\<open>MockGPIO.output\<close>, \<open>ValueError_sleep\<close> the one \<^verbatim>\<open>time.sleep\<close> raises on a
  negative length, \<open>Driver_exception\<close> any other exception a driver call raises.
\<close>

datatype exn = ValueError_pin int | ValueError_sleep | Driver_exception string

datatype 'a res = Ret 'a | Exc exn

text \<open>
  A driver is the set of calls the controller makes on \<^verbatim>\<open>GPIO\<close>, over a driver state
  \<open>'d\<close>. Every call returns normally or raises, and may change the driver state either
  way. \<open>gpio_available\<close> is the module constant \<^verbatim>\<open>GPIO_AVAILABLE\<close>.
\<close>

record 'd driver =
  gpio_available :: bool
  gpio_setmode :: "numbering \<Rightarrow> 'd \<Rightarrow> unit res \<times> 'd"
  gpio_setup :: "int \<Rightarrow> direction \<Rightarrow> int option \<Rightarrow> 'd \<Rightarrow> unit res \<times> 'd"
  gpio_output :: "int \<Rightarrow> int \<Rightarrow> 'd \<Rightarrow> unit res \<times> 'd"
  gpio_input :: "int \<Rightarrow> 'd \<Rightarrow> int res \<times> 'd"
  gpio_cleanup :: "'d \<Rightarrow> unit res \<times> 'd"

text \<open>The driver calls, as they are recorded in the order the controller makes them.\<close>

datatype gpio_call =
  Call_setmode numbering
| Call_setup int direction "int option"
| Call_output int int
| Call_input int
| Call_cleanup

section \<open>The controller state and the control constructs of the source\<close>

text \<open>
  \<open>configured_pins\<close> is the Python set \<^verbatim>\<open>self.configured_pins\<close>. The loops of the source
  iterate over it, so it is kept as a list without duplicates whose order is the
  iteration order; which order Python picks is not modelled, and the theorems about those
  loops hold for every list. \<open>pin_states\<close> is the dictionary \<^verbatim>\<open>self.pin_states\<close>.
  \<open>lock_held\<close> is the state of \<^verbatim>\<open>self.lock\<close>, a non-reentrant \<^verbatim>\<open>threading.Lock\<close>.
  \<open>gpio\<close> is the state of the driver. \<open>calls\<close> is a history of the driver calls made so
  far; no branch of the model reads it.
\<close>

record 'd system =
  configured_pins :: "int list"
  pin_states :: "int \<rightharpoonup> int"
  lock_held :: bool
  is_initialized :: bool
  gpio :: 'd
  calls :: "gpio_call list"

text \<open>
  A method of the controller is run by one thread from a state. It returns a value
  (\<open>Ret\<close>) or raises (\<open>Exc\<close>), with the state it leaves; or it never returns, which
  is the result \<open>None\<close>: the only way the source can block forever is by acquiring the
  lock while the lock is held, since no other thread is there to release it.
\<close>

type_synonym ('d, 'a) prog = "'d system \<Rightarrow> ('a res \<times> 'd system) option"

definition ret :: "'a \<Rightarrow> ('d, 'a) prog" where
  "ret a s = Some (Ret a, s)"

definition raise :: "exn \<Rightarrow> ('d, 'a) prog" where
  "raise e s = Some (Exc e, s)"

definition seq :: "('d, 'a) prog \<Rightarrow> ('a \<Rightarrow> ('d, 'b) prog) \<Rightarrow> ('d, 'b) prog" where
  "seq m f s =
     (case m s of
        None \<Rightarrow> None
      | Some (Exc e, s') \<Rightarrow> Some (Exc e, s')
      | Some (Ret a, s') \<Rightarrow> f a s')"

definition gets :: "('d system \<Rightarrow> 'a) \<Rightarrow> ('d, 'a) prog" where
  "gets f s = Some (Ret (f s), s)"

definition modify :: "('d system \<Rightarrow> 'd system) \<Rightarrow> ('d, unit) prog" where
  "modify f s = Some (Ret (), f s)"

text \<open>\<^verbatim>\<open>try: m except Exception as e: h\<close>. What \<open>m\<close> did before it raised stays done.\<close>

definition try_except :: "('d, 'a) prog \<Rightarrow> (exn \<Rightarrow> ('d, 'a) prog) \<Rightarrow> ('d, 'a) prog" where
  "try_except m h s =
     (case m s of
        None \<Rightarrow> None
      | Some (Exc e, s') \<Rightarrow> h e s'
      | Some (Ret a, s') \<Rightarrow> Some (Ret a, s'))"

text \<open>
  \<^verbatim>\<open>with self.lock: m\<close>. Acquiring blocks while the lock is held; the lock is released
  when the block is left, by a return or by an exception.
\<close>

definition with_lock :: "('d, 'a) prog \<Rightarrow> ('d, 'a) prog" where
  "with_lock m s =
     (if lock_held s then None
      else (case m (s\<lparr>lock_held := True\<rparr>) of
              None \<Rightarrow> None
            | Some (r, s') \<Rightarrow> Some (r, s'\<lparr>lock_held := False\<rparr>)))"

text \<open>A call of the driver: it runs on the driver state and is added to the history.\<close>

definition call :: "gpio_call \<Rightarrow> ('d \<Rightarrow> 'a res \<times> 'd) \<Rightarrow> ('d, 'a) prog" where
  "call c f s =
     (case f (gpio s) of (r, g') \<Rightarrow> Some (r, s\<lparr>gpio := g', calls := calls s @ [c]\<rparr>))"

text \<open>\<^verbatim>\<open>time.sleep(d)\<close>: the waiting itself is not modelled, its \<^verbatim>\<open>ValueError\<close> is.\<close>

definition sleep :: "real \<Rightarrow> ('d, unit) prog" where
  "sleep d = (if d < 0 then raise ValueError_sleep else ret ())"

text \<open>\<^verbatim>\<open>set.add\<close> on the list that stands for the set.\<close>

definition set_add :: "int \<Rightarrow> int list \<Rightarrow> int list" where
  "set_add x xs = (if x \<in> set xs then xs else xs @ [x])"

section \<open>The simulation driver \<^verbatim>\<open>MockGPIO\<close>\<close>

record mock_gpio =
  mock_pin_states :: "int \<rightharpoonup> int"
  mock_pin_modes :: "int \<rightharpoonup> direction"

definition mock_setmode :: "numbering \<Rightarrow> mock_gpio \<Rightarrow> unit res \<times> mock_gpio" where
  "mock_setmode mode g = (Ret (), g)"

definition mock_setup :: "int \<Rightarrow> direction \<Rightarrow> int option \<Rightarrow> mock_gpio \<Rightarrow> unit res \<times> mock_gpio" where
  "mock_setup pin mode initial g =
     (let g1 = g\<lparr>mock_pin_modes := (mock_pin_modes g)(pin \<mapsto> mode)\<rparr> in
      case initial of
        Some v \<Rightarrow> (Ret (), g1\<lparr>mock_pin_states := (mock_pin_states g1)(pin \<mapsto> v)\<rparr>)
      | None \<Rightarrow> (Ret (), g1\<lparr>mock_pin_states := (mock_pin_states g1)(pin \<mapsto> LOW)\<rparr>))"

definition mock_output :: "int \<Rightarrow> int \<Rightarrow> mock_gpio \<Rightarrow> unit res \<times> mock_gpio" where
  "mock_output pin state g =
     (if pin \<in> dom (mock_pin_modes g)
      then (Ret (), g\<lparr>mock_pin_states := (mock_pin_states g)(pin \<mapsto> state)\<rparr>)
      else (Exc (ValueError_pin pin), g))"

definition mock_input :: "int \<Rightarrow> mock_gpio \<Rightarrow> int res \<times> mock_gpio" where
  "mock_input pin g =
     (case mock_pin_states g pin of Some v \<Rightarrow> (Ret v, g) | None \<Rightarrow> (Ret LOW, g))"

definition mock_cleanup :: "mock_gpio \<Rightarrow> unit res \<times> mock_gpio" where
  "mock_cleanup g = (Ret (), g\<lparr>mock_pin_states := Map.empty, mock_pin_modes := Map.empty\<rparr>)"

definition MockGPIO :: "mock_gpio driver" where
  "MockGPIO =
     \<lparr>gpio_available = False,
      gpio_setmode = mock_setmode,
      gpio_setup = mock_setup,
      gpio_output = mock_output,
      gpio_input = mock_input,
      gpio_cleanup = mock_cleanup\<rparr>"

text \<open>The class attributes \<^verbatim>\<open>_pin_states = {}\<close> and \<^verbatim>\<open>_pin_modes = {}\<close> at import.\<close>

definition mock_initial :: mock_gpio where
  "mock_initial = \<lparr>mock_pin_states = Map.empty, mock_pin_modes = Map.empty\<rparr>"

section \<open>\<^verbatim>\<open>GPIOController\<close>\<close>

definition initialize_gpio :: "'d driver \<Rightarrow> ('d, unit) prog" where
  "initialize_gpio drv =
     try_except
       (with_lock
          (seq (gets is_initialized) (\<lambda>initialized.
             if \<not> initialized
             then seq (call (Call_setmode BCM) (gpio_setmode drv BCM)) (\<lambda>_.
                  modify (\<lambda>s. s\<lparr>is_initialized := True\<rparr>))
             else ret ())))
       (\<lambda>e. raise e)"

text \<open>\<^verbatim>\<open>__init__\<close>: the fields are set, then \<^verbatim>\<open>_initialize_gpio\<close> runs.\<close>

definition fresh :: "'d \<Rightarrow> 'd system" where
  "fresh g =
     \<lparr>configured_pins = [], pin_states = Map.empty, lock_held = False,
      is_initialized = False, gpio = g, calls = []\<rparr>"

definition init :: "'d driver \<Rightarrow> 'd \<Rightarrow> (unit res \<times> 'd system) option" where
  "init drv g = initialize_gpio drv (fresh g)"

definition valid_pins :: "int set" where
  "valid_pins = {2, 3, 4, 5, 6, 7, 8, 9, 10, 11, 12, 13, 14, 15, 16, 17, 18, 19, 20, 21,
                 22, 23, 24, 25, 26, 27}"

definition validate_pin :: "int \<Rightarrow> bool" where
  "validate_pin pin = (if pin \<notin> valid_pins then False else True)"

definition setup_pin :: "'d driver \<Rightarrow> int \<Rightarrow> int \<Rightarrow> ('d, bool) prog" where
  "setup_pin drv pin initial_state =
     try_except
       (if \<not> validate_pin pin then ret False
        else with_lock
          (seq (call (Call_setup pin OUT (Some initial_state))
                  (gpio_setup drv pin OUT (Some initial_state))) (\<lambda>_.
           seq (modify (\<lambda>s. s\<lparr>configured_pins := set_add pin (configured_pins s)\<rparr>)) (\<lambda>_.
           seq (modify (\<lambda>s. s\<lparr>pin_states := (pin_states s)(pin \<mapsto> initial_state)\<rparr>)) (\<lambda>_.
           ret True)))))
       (\<lambda>e. ret False)"


fun setup_pins_loop :: "'d driver \<Rightarrow> int list \<Rightarrow> int \<Rightarrow> (int \<rightharpoonup> bool) \<Rightarrow> ('d, int \<rightharpoonup> bool) prog" where
  "setup_pins_loop drv [] initial_state results = ret results"
| "setup_pins_loop drv (pin # pins) initial_state results =
     seq (setup_pin drv pin initial_state) (\<lambda>ok.
     setup_pins_loop drv pins initial_state (results(pin \<mapsto> ok)))"

text \<open>
  \<^verbatim>\<open>setup_pins\<close>: the two list comprehensions after the loop only feed the log.
\<close>

definition setup_pins :: "'d driver \<Rightarrow> int list \<Rightarrow> int \<Rightarrow> ('d, int \<rightharpoonup> bool) prog" where
  "setup_pins drv pins initial_state = setup_pins_loop drv pins initial_state Map.empty"

definition turn_on :: "'d driver \<Rightarrow> int \<Rightarrow> ('d, bool) prog" where
  "turn_on drv pin =
     try_except
       (seq (gets (\<lambda>s. pin \<notin> set (configured_pins s))) (\<lambda>unconfigured.
        seq (if unconfigured then setup_pin drv pin LOW else ret True) (\<lambda>ok.
        if \<not> ok then ret False
        else with_lock
          (seq (call (Call_output pin HIGH) (gpio_output drv pin HIGH)) (\<lambda>_.
           seq (modify (\<lambda>s. s\<lparr>pin_states := (pin_states s)(pin \<mapsto> HIGH)\<rparr>)) (\<lambda>_.
           ret True))))))
       (\<lambda>e. ret False)"

definition turn_off :: "'d driver \<Rightarrow> int \<Rightarrow> ('d, bool) prog" where
  "turn_off drv pin =
     try_except
       (seq (gets (\<lambda>s. pin \<notin> set (configured_pins s))) (\<lambda>unconfigured.
        seq (if unconfigured then setup_pin drv pin LOW else ret True) (\<lambda>ok.
        if \<not> ok then ret False
        else with_lock
          (seq (call (Call_output pin LOW) (gpio_output drv pin LOW)) (\<lambda>_.
           seq (modify (\<lambda>s. s\<lparr>pin_states := (pin_states s)(pin \<mapsto> LOW)\<rparr>)) (\<lambda>_.
           ret True))))))
       (\<lambda>e. ret False)"

definition get_pin_state :: "'d driver \<Rightarrow> int \<Rightarrow> ('d, int option) prog" where
  "get_pin_state drv pin =
     try_except
       (seq (gets (\<lambda>s. pin \<notin> set (configured_pins s))) (\<lambda>unconfigured.
        if unconfigured then ret None
        else with_lock
          (seq (call (Call_input pin) (gpio_input drv pin)) (\<lambda>current_state.
           seq (modify (\<lambda>s. s\<lparr>pin_states := (pin_states s)(pin \<mapsto> current_state)\<rparr>)) (\<lambda>_.
           ret (Some current_state))))))
       (\<lambda>e. ret None)"

definition toggle :: "'d driver \<Rightarrow> int \<Rightarrow> ('d, bool) prog" where
  "toggle drv pin =
     try_except
       (seq (get_pin_state drv pin) (\<lambda>current_state.
        if current_state = Some HIGH then turn_off drv pin else turn_on drv pin))
       (\<lambda>e. ret False)"

record pin_status =
  state :: "int option"
  state_name :: string
  configured :: bool

text \<open>
  The loop of \<^verbatim>\<open>get_all_pins_status\<close> runs over the set as it is when the loop starts;
  its body, \<^verbatim>\<open>get_pin_state\<close>, adds no pin. The same holds for the loop of
  \<^verbatim>\<open>turn_all_off\<close>, whose body calls \<^verbatim>\<open>turn_off\<close> on configured pins only.
\<close>

fun status_loop :: "'d driver \<Rightarrow> int list \<Rightarrow> (int \<rightharpoonup> pin_status) \<Rightarrow> ('d, int \<rightharpoonup> pin_status) prog" where
  "status_loop drv [] status = ret status"
| "status_loop drv (pin # pins) status =
     seq (get_pin_state drv pin) (\<lambda>st.
     status_loop drv pins
       (status(pin \<mapsto> \<lparr>state = st,
                        state_name = (if st = Some HIGH then ''HIGH'' else ''LOW''),
                        configured = True\<rparr>)))"

definition get_all_pins_status :: "'d driver \<Rightarrow> ('d, int \<rightharpoonup> pin_status) prog" where
  "get_all_pins_status drv =
     seq (gets configured_pins) (\<lambda>pins. status_loop drv pins Map.empty)"

definition pulse :: "'d driver \<Rightarrow> int \<Rightarrow> real \<Rightarrow> ('d, bool) prog" where
  "pulse drv pin duration =
     try_except
       (seq (turn_on drv pin) (\<lambda>ok.
        if \<not> ok then ret False
        else seq (sleep duration) (\<lambda>_. turn_off drv pin)))
       (\<lambda>e. ret False)"

text \<open>
  \<^verbatim>\<open>for _ in range(times)\<close> runs \<open>nat ntimes\<close> rounds, none when \<open>ntimes\<close>
  (the argument \<^verbatim>\<open>times\<close>) is negative.
\<close>

fun blink_loop :: "'d driver \<Rightarrow> int \<Rightarrow> real \<Rightarrow> nat \<Rightarrow> ('d, bool) prog" where
  "blink_loop drv pin interval 0 = ret True"
| "blink_loop drv pin interval (Suc n) =
     seq (turn_on drv pin) (\<lambda>ok.
     if \<not> ok then ret False
     else seq (sleep interval) (\<lambda>_.
          seq (turn_off drv pin) (\<lambda>ok.
          if \<not> ok then ret False
          else seq (sleep interval) (\<lambda>_.
               blink_loop drv pin interval n))))"

definition blink :: "'d driver \<Rightarrow> int \<Rightarrow> int \<Rightarrow> real \<Rightarrow> ('d, bool) prog" where
  "blink drv pin ntimes interval =
     try_except (blink_loop drv pin interval (nat ntimes)) (\<lambda>e. ret False)"

fun turn_all_off_loop :: "'d driver \<Rightarrow> int list \<Rightarrow> bool \<Rightarrow> ('d, bool) prog" where
  "turn_all_off_loop drv [] success = ret success"
| "turn_all_off_loop drv (pin # pins) success =
     seq (turn_off drv pin) (\<lambda>ok.
     turn_all_off_loop drv pins (if \<not> ok then False else success))"

definition turn_all_off :: "'d driver \<Rightarrow> ('d, bool) prog" where
  "turn_all_off drv =
     try_except
       (seq (gets configured_pins) (\<lambda>pins. turn_all_off_loop drv pins True))
       (\<lambda>e. ret False)"

text \<open>
  \<^verbatim>\<open>cleanup\<close> calls \<^verbatim>\<open>turn_all_off\<close> inside its own \<^verbatim>\<open>with self.lock\<close> block.
\<close>

definition cleanup :: "'d driver \<Rightarrow> ('d, unit) prog" where
  "cleanup drv =
     try_except
       (with_lock
          (seq (gets is_initialized) (\<lambda>initialized.
             if initialized
             then seq (turn_all_off drv) (\<lambda>_.
                  seq (call Call_cleanup (gpio_cleanup drv)) (\<lambda>_.
                  seq (modify (\<lambda>s. s\<lparr>configured_pins := []\<rparr>)) (\<lambda>_.
                  seq (modify (\<lambda>s. s\<lparr>pin_states := Map.empty\<rparr>)) (\<lambda>_.
                  modify (\<lambda>s. s\<lparr>is_initialized := False\<rparr>)))))
             else ret ())))
       (\<lambda>e. ret ())"

definition get_configured_pins :: "('d, int list) prog" where
  "get_configured_pins = gets configured_pins"

definition is_pin_configured :: "int \<Rightarrow> ('d, bool) prog" where
  "is_pin_configured pin = gets (\<lambda>s. pin \<in> set (configured_pins s))"

record system_info =
  info_gpio_available :: bool
  info_initialized :: bool
  info_configured_pins :: "int list"
  info_total_configured :: nat

definition get_system_info :: "'d driver \<Rightarrow> ('d, system_info) prog" where
  "get_system_info drv =
     gets (\<lambda>s. \<lparr>info_gpio_available = gpio_available drv,
                info_initialized = is_initialized s,
                info_configured_pins = configured_pins s,
                info_total_configured = length (configured_pins s)\<rparr>)"

section \<open>The route \<^verbatim>\<open>/api/gpio/<pin>/status\<close> of \<^verbatim>\<open>app.py\<close>\<close>

text \<open>
  The JSON body and the HTTP status of the answer. \<open>truthy\<close> is the test
  \<^verbatim>\<open>if state\<close> on a value that is \<^verbatim>\<open>None\<close> or an integer.
\<close>

datatype response =
  Pin_status_response (resp_status: string) (resp_pin: int) (resp_state: string)
    (resp_value: "int option")
| Error_response (resp_status: string) (resp_message: exn) (resp_pin: int)

definition truthy :: "int option \<Rightarrow> bool" where
  "truthy v = (case v of None \<Rightarrow> False | Some n \<Rightarrow> n \<noteq> 0)"

definition get_pin_status :: "'d driver \<Rightarrow> int \<Rightarrow> ('d, response \<times> nat) prog" where
  "get_pin_status drv pin =
     try_except
       (seq (get_pin_state drv pin) (\<lambda>st.
        ret (Pin_status_response ''success'' pin (if truthy st then ''HIGH'' else ''LOW'') st,
             200)))
       (\<lambda>e. ret (Error_response ''error'' e pin, 500))"

section \<open>The public operations as one step function\<close>

datatype operation =
  Setup_pin int int
| Setup_pins "int list" int
| Turn_on int
| Turn_off int
| Toggle int
| Get_pin_state int
| Get_all_pins_status
| Pulse int real
| Blink int int real
| Turn_all_off
| Cleanup
| Get_configured_pins
| Is_pin_configured int
| Get_system_info

datatype retval =
  V_bool bool
| V_level "int option"
| V_results "int \<rightharpoonup> bool"
| V_status "int \<rightharpoonup> pin_status"
| V_none
| V_pins "int list"
| V_info system_info

definition returning :: "('a \<Rightarrow> retval) \<Rightarrow> ('d, 'a) prog \<Rightarrow> ('d, retval) prog" where
  "returning f m = seq m (\<lambda>v. ret (f v))"

fun run :: "'d driver \<Rightarrow> operation \<Rightarrow> ('d, retval) prog" where
  "run drv (Setup_pin pin initial_state) = returning V_bool (setup_pin drv pin initial_state)"
| "run drv (Setup_pins pins initial_state) = returning V_results (setup_pins drv pins initial_state)"
| "run drv (Turn_on pin) = returning V_bool (turn_on drv pin)"
| "run drv (Turn_off pin) = returning V_bool (turn_off drv pin)"
| "run drv (Toggle pin) = returning V_bool (toggle drv pin)"
| "run drv (Get_pin_state pin) = returning V_level (get_pin_state drv pin)"
| "run drv Get_all_pins_status = returning V_status (get_all_pins_status drv)"
| "run drv (Pulse pin duration) = returning V_bool (pulse drv pin duration)"
| "run drv (Blink pin ntimes interval) = returning V_bool (blink drv pin ntimes interval)"
| "run drv Turn_all_off = returning V_bool (turn_all_off drv)"
| "run drv Cleanup = returning (\<lambda>_. V_none) (cleanup drv)"
| "run drv Get_configured_pins = returning V_pins get_configured_pins"
| "run drv (Is_pin_configured pin) = returning V_bool (is_pin_configured pin)"
| "run drv Get_system_info = returning V_info (get_system_info drv)"

text \<open>
  The states a controller can be in between two calls: the one its constructor leaves,
  and any state a public operation returns in (by a value or by an exception) when run
  from such a state.
\<close>

inductive reachable :: "'d driver \<Rightarrow> 'd system \<Rightarrow> bool" for drv :: "'d driver" where
  reachable_init: "init drv g = Some (Ret (), s) \<Longrightarrow> reachable drv s"
| reachable_step: "reachable drv s \<Longrightarrow> run drv op s = Some (r, s') \<Longrightarrow> reachable drv s'"

section \<open>Vocabulary of the statements\<close>

text \<open>
  \<^verbatim>\<open>turn_on\<close> and \<^verbatim>\<open>turn_off\<close> are the same text up to the level they write;
  \<open>set_level\<close> is that text with the level as a parameter (the specification's
  \<^verbatim>\<open>setLevel\<close>). Lemmas \<open>turn_on_set_level\<close> and \<open>turn_off_set_level\<close> relate it to
  the two methods.
\<close>

definition set_level :: "'d driver \<Rightarrow> int \<Rightarrow> int \<Rightarrow> ('d, bool) prog" where
  "set_level drv pin level =
     try_except
       (seq (gets (\<lambda>s. pin \<notin> set (configured_pins s))) (\<lambda>unconfigured.
        seq (if unconfigured then setup_pin drv pin LOW else ret True) (\<lambda>ok.
        if \<not> ok then ret False
        else with_lock
          (seq (call (Call_output pin level) (gpio_output drv pin level)) (\<lambda>_.
           seq (modify (\<lambda>s. s\<lparr>pin_states := (pin_states s)(pin \<mapsto> level)\<rparr>)) (\<lambda>_.
           ret True))))))
       (\<lambda>e. ret False)"

text \<open>
  Three predicates on a program, each about every state it can start from: it keeps a
  property of the state, it never ends in an exception, and from a state where the lock
  is free it ends (by a value or by an exception) with the lock free again.
\<close>

definition preserves :: "('d system \<Rightarrow> bool) \<Rightarrow> ('d, 'a) prog \<Rightarrow> bool" where
  "preserves P m = (\<forall>s r s'. P s \<longrightarrow> m s = Some (r, s') \<longrightarrow> P s')"

definition never_raises :: "('d, 'a) prog \<Rightarrow> bool" where
  "never_raises m = (\<forall>s e s'. m s \<noteq> Some (Exc e, s'))"

definition terminates :: "('d, 'a) prog \<Rightarrow> bool" where
  "terminates m = (\<forall>s. \<not> lock_held s \<longrightarrow> (\<exists>r s'. m s = Some (r, s') \<and> \<not> lock_held s'))"

text \<open>
  What the specification says \<^verbatim>\<open>setLevel\<close> does on a pin that is not configured, as a
  result computed from the driver's answers: the pin is checked, then configured with the
  default level \<open>LOW\<close>, then written; a failure of either driver call gives \<open>False\<close>.
\<close>

definition auto_configure_then_write :: "'d driver \<Rightarrow> int \<Rightarrow> int \<Rightarrow> ('d, bool) prog" where
  "auto_configure_then_write drv pin level s =
     (if \<not> validate_pin pin then Some (Ret False, s)
      else
        (case gpio_setup drv pin OUT (Some LOW) (gpio s) of
           (Exc e, g1) \<Rightarrow>
             Some (Ret False, s\<lparr>gpio := g1, calls := calls s @ [Call_setup pin OUT (Some LOW)]\<rparr>)
         | (Ret u, g1) \<Rightarrow>
             (case gpio_output drv pin level g1 of
                (Exc e, g2) \<Rightarrow>
                  Some (Ret False,
                        s\<lparr>configured_pins := configured_pins s @ [pin],
                          pin_states := (pin_states s)(pin \<mapsto> LOW),
                          gpio := g2,
                          calls := calls s @ [Call_setup pin OUT (Some LOW),
                                              Call_output pin level]\<rparr>)
              | (Ret u', g2) \<Rightarrow>
                  Some (Ret True,
                        s\<lparr>configured_pins := configured_pins s @ [pin],
                          pin_states := (pin_states s)(pin \<mapsto> level),
                          gpio := g2,
                          calls := calls s @ [Call_setup pin OUT (Some LOW),
                                              Call_output pin level]\<rparr>))))"

text \<open>A driver whose \<^verbatim>\<open>output\<close> raises on one pin and is the simulation elsewhere.\<close>

definition output_fails_on :: "int \<Rightarrow> mock_gpio driver" where
  "output_fails_on bad =
     MockGPIO\<lparr>gpio_output :=
       (\<lambda>pin st g. if pin = bad then (Exc (Driver_exception ''output''), g)
                    else mock_output pin st g)\<rparr>"

text \<open>
  The invariant of the controller between two calls: the configured pins are the keys of
  the cached levels, the list that stands for the set has no duplicates, and the lock is
  free.
\<close>

definition registry_invariant :: "'d system \<Rightarrow> bool" where
  "registry_invariant s =
     (set (configured_pins s) = dom (pin_states s) \<and> distinct (configured_pins s) \<and>
      \<not> lock_held s)"


text \<open>
  The answers of the driver to the writes of one level on the pins of a list, in turn,
  each write from the driver state the one before left.
\<close>

fun output_results :: "'d driver \<Rightarrow> int list \<Rightarrow> int \<Rightarrow> 'd \<Rightarrow> unit res list" where
  "output_results drv [] level g = []"
| "output_results drv (pin # pins) level g =
     (case gpio_output drv pin level g of (r, g') \<Rightarrow> r # output_results drv pins level g')"


text \<open>
  What the specification says \<^verbatim>\<open>configureMany\<close> does: \<^verbatim>\<open>configure\<close> on each pin
  of the sequence in its order, going on to the next pin whatever the outcome was, and
  one outcome for each pin of the sequence.
\<close>

fun configure_each ::
  "'d driver \<Rightarrow> int \<Rightarrow> int list \<Rightarrow> 'd system \<Rightarrow> ((int \<times> bool) list \<times> 'd system) option" where
  "configure_each drv initial_state [] s = Some ([], s)"
| "configure_each drv initial_state (pin # pins) s =
     (case setup_pin drv pin initial_state s of
        Some (Ret ok, s1) \<Rightarrow>
          (case configure_each drv initial_state pins s1 of
             Some (outcomes, s2) \<Rightarrow> Some ((pin, ok) # outcomes, s2)
           | None \<Rightarrow> None)
      | _ \<Rightarrow> None)"

text \<open>A controller state with pins 4, 17 and 27 configured and \<open>HIGH\<close>.\<close>

definition three_pins_high :: "mock_gpio system" where
  "three_pins_high =
     \<lparr>configured_pins = [4, 17, 27],
      pin_states = [4 \<mapsto> HIGH, 17 \<mapsto> HIGH, 27 \<mapsto> HIGH],
      lock_held = False, is_initialized = True,
      gpio = \<lparr>mock_pin_states = [4 \<mapsto> HIGH, 17 \<mapsto> HIGH, 27 \<mapsto> HIGH],
              mock_pin_modes = [4 \<mapsto> OUT, 17 \<mapsto> OUT, 27 \<mapsto> OUT]\<rparr>,
      calls = []\<rparr>"

section \<open>The control constructs\<close>

lemma validate_pin_iff: "validate_pin p \<longleftrightarrow> 2 \<le> p \<and> p \<le> 27"
  unfolding validate_pin_def valid_pins_def by (simp; arith)

lemma seq_ret [simp]: "seq (ret a) f s = f a s"
  by (simp add: seq_def ret_def)

lemma seq_gets [simp]: "seq (gets g) f s = f (g s) s"
  by (simp add: seq_def gets_def)

lemma seq_modify [simp]: "seq (modify g) f s = f () (g s)"
  by (simp add: seq_def modify_def)

lemma seq_call:
  "seq (call c d) f s =
     (case d (gpio s) of
        (Ret a, g') \<Rightarrow> f a (s\<lparr>gpio := g', calls := calls s @ [c]\<rparr>)
      | (Exc e, g') \<Rightarrow> Some (Exc e, s\<lparr>gpio := g', calls := calls s @ [c]\<rparr>))"
  by (simp add: seq_def call_def split: prod.splits res.splits)

lemma seq_Some_Ret: "m s = Some (Ret a, s1) \<Longrightarrow> seq m f s = f a s1"
  by (simp add: seq_def)

lemma seq_None: "m s = None \<Longrightarrow> seq m f s = None"
  by (simp add: seq_def)

lemma try_except_Some_Ret: "m s = Some (Ret a, s1) \<Longrightarrow> try_except m h s = Some (Ret a, s1)"
  by (simp add: try_except_def)

lemma try_except_None: "m s = None \<Longrightarrow> try_except m h s = None"
  by (simp add: try_except_def)

lemma try_except_ret_no_exc: "try_except m (\<lambda>e. ret v) s \<noteq> Some (Exc e, s')"
  by (simp add: try_except_def ret_def split: option.splits prod.splits res.splits)

lemma setup_pin_invalid: "\<not> validate_pin p \<Longrightarrow> setup_pin drv p i s = Some (Ret False, s)"
  by (simp add: setup_pin_def try_except_def ret_def)

lemma setup_pin_locked: "validate_pin p \<Longrightarrow> lock_held s \<Longrightarrow> setup_pin drv p i s = None"
  by (simp add: setup_pin_def try_except_def with_lock_def)

lemma setup_pin_valid:
  "validate_pin p \<Longrightarrow> \<not> lock_held s \<Longrightarrow>
   setup_pin drv p i s =
     (case gpio_setup drv p OUT (Some i) (gpio s) of
        (Ret u, g') \<Rightarrow>
          Some (Ret True, s\<lparr>configured_pins := set_add p (configured_pins s),
                            pin_states := (pin_states s)(p \<mapsto> i),
                            gpio := g', calls := calls s @ [Call_setup p OUT (Some i)]\<rparr>)
      | (Exc e, g') \<Rightarrow>
          Some (Ret False, s\<lparr>gpio := g', calls := calls s @ [Call_setup p OUT (Some i)]\<rparr>))"
  by (simp add: setup_pin_def try_except_def with_lock_def seq_call ret_def
           split: prod.splits res.splits)

lemma turn_on_set_level: "turn_on drv pin = set_level drv pin HIGH"
  by (simp add: turn_on_def set_level_def)

lemma turn_off_set_level: "turn_off drv pin = set_level drv pin LOW"
  by (simp add: turn_off_def set_level_def)

lemma set_level_configured:
  "p \<in> set (configured_pins s) \<Longrightarrow> \<not> lock_held s \<Longrightarrow>
   set_level drv p v s =
     (case gpio_output drv p v (gpio s) of
        (Ret u, g') \<Rightarrow>
          Some (Ret True, s\<lparr>pin_states := (pin_states s)(p \<mapsto> v),
                            gpio := g', calls := calls s @ [Call_output p v]\<rparr>)
      | (Exc e, g') \<Rightarrow>
          Some (Ret False, s\<lparr>gpio := g', calls := calls s @ [Call_output p v]\<rparr>))"
  by (simp add: set_level_def try_except_def with_lock_def seq_call ret_def
           split: prod.splits res.splits)

lemma set_level_configured_locked:
  "p \<in> set (configured_pins s) \<Longrightarrow> lock_held s \<Longrightarrow> set_level drv p v s = None"
  by (simp add: set_level_def try_except_def with_lock_def)

lemma try_except_seq:
  "try_except (seq m f) h s =
     (case m s of
        None \<Rightarrow> None
      | Some (Exc e, s1) \<Rightarrow> h e s1
      | Some (Ret a, s1) \<Rightarrow> try_except (f a) h s1)"
  by (simp add: try_except_def seq_def split: option.splits prod.splits res.splits)

lemma try_except_ret [simp]: "try_except (ret a) h s = Some (Ret a, s)"
  by (simp add: try_except_def ret_def)

lemma locked_write:
  "try_except
     (with_lock
        (seq (call c d) (\<lambda>_. seq (modify g) (\<lambda>_. ret True))))
     (\<lambda>e. ret False) s =
   (if lock_held s then None
    else (case d (gpio s) of
            (Ret u, g') \<Rightarrow> Some (Ret True, (g (s\<lparr>lock_held := True, gpio := g', calls := calls s @ [c]\<rparr>))\<lparr>lock_held := False\<rparr>)
          | (Exc e, g') \<Rightarrow> Some (Ret False, s\<lparr>gpio := g', calls := calls s @ [c]\<rparr>)))"
  by (simp add: try_except_def with_lock_def seq_call ret_def split: prod.splits res.splits)

lemma set_level_unconfigured:
  assumes unconf: "p \<notin> set (configured_pins s)"
  shows "set_level drv p v s =
     (case setup_pin drv p LOW s of
        None \<Rightarrow> None
      | Some (Exc e, s1) \<Rightarrow> Some (Ret False, s1)
      | Some (Ret False, s1) \<Rightarrow> Some (Ret False, s1)
      | Some (Ret True, s1) \<Rightarrow>
          (if lock_held s1 then None
           else (case gpio_output drv p v (gpio s1) of
              (Ret u, g') \<Rightarrow>
                Some (Ret True, s1\<lparr>pin_states := (pin_states s1)(p \<mapsto> v),
                            gpio := g', calls := calls s1 @ [Call_output p v]\<rparr>)
            | (Exc e, g') \<Rightarrow>
                Some (Ret False, s1\<lparr>gpio := g', calls := calls s1 @ [Call_output p v]\<rparr>))))"
proof (cases "setup_pin drv p LOW s")
  case None
  with unconf show ?thesis
    by (simp add: set_level_def try_except_seq gets_def)
next
  case (Some a)
  obtain r s1 where a: "a = (r, s1)" by (cases a)
  show ?thesis
  proof (cases r)
    case (Exc e)
    with Some a unconf show ?thesis
      by (simp add: set_level_def try_except_seq gets_def ret_def)
  next
    case (Ret b)
    with Some a unconf show ?thesis
      by (cases b) (simp_all add: set_level_def try_except_seq [where m = "gets f" for f]
            try_except_seq [where m = "setup_pin drv p LOW"] gets_def locked_write
            split: prod.splits res.splits)
  qed
qed

lemma get_pin_state_unconfigured:
  "p \<notin> set (configured_pins s) \<Longrightarrow> get_pin_state drv p s = Some (Ret None, s)"
  by (simp add: get_pin_state_def try_except_def ret_def)

lemma get_pin_state_configured:
  "p \<in> set (configured_pins s) \<Longrightarrow> \<not> lock_held s \<Longrightarrow>
   get_pin_state drv p s =
     (case gpio_input drv p (gpio s) of
        (Ret v, g') \<Rightarrow>
          Some (Ret (Some v), s\<lparr>pin_states := (pin_states s)(p \<mapsto> v),
                            gpio := g', calls := calls s @ [Call_input p]\<rparr>)
      | (Exc e, g') \<Rightarrow>
          Some (Ret None, s\<lparr>gpio := g', calls := calls s @ [Call_input p]\<rparr>))"
  by (simp add: get_pin_state_def try_except_def with_lock_def seq_call ret_def
           split: prod.splits res.splits)

lemma get_pin_state_configured_locked:
  "p \<in> set (configured_pins s) \<Longrightarrow> lock_held s \<Longrightarrow> get_pin_state drv p s = None"
  by (simp add: get_pin_state_def try_except_def with_lock_def)


subsection \<open>Never raising\<close>

lemma never_raises_try: "never_raises (try_except m (\<lambda>e. ret v))"
  by (simp add: never_raises_def try_except_ret_no_exc)




lemma never_raises_setup_pin: "never_raises (setup_pin drv p i)"
  unfolding setup_pin_def by (rule never_raises_try)






subsection \<open>Keeping a property of the state\<close>

lemma preserves_ret: "preserves P (ret a)"
  by (simp add: preserves_def ret_def)

lemma preserves_raise: "preserves P (raise e)"
  by (simp add: preserves_def raise_def)

lemma preserves_gets: "preserves P (gets f)"
  by (simp add: preserves_def gets_def)

lemma preserves_sleep: "preserves P (sleep d)"
  by (simp add: sleep_def preserves_ret preserves_raise)

lemma preserves_seq:
  assumes m: "preserves P m" and f: "\<And>a. preserves P (f a)"
  shows "preserves P (seq m f)"
  unfolding preserves_def
proof (intro allI impI)
  fix s r s'
  assume P: "P s" and run: "seq m f s = Some (r, s')"
  show "P s'"
  proof (cases "m s")
    case None
    with run show ?thesis by (simp add: seq_def)
  next
    case (Some a)
    obtain r1 s1 where a: "a = (r1, s1)" by (cases a)
    with Some m P have P1: "P s1" by (simp add: preserves_def)
    show ?thesis
    proof (cases r1)
      case (Exc e)
      with Some a run P1 show ?thesis by (simp add: seq_def)
    next
      case (Ret x)
      with Some a run have "f x s1 = Some (r, s')" by (simp add: seq_def)
      with f [of x] P1 show ?thesis by (simp add: preserves_def)
    qed
  qed
qed

lemma preserves_try:
  assumes m: "preserves P m" and h: "\<And>e. preserves P (h e)"
  shows "preserves P (try_except m h)"
  unfolding preserves_def
proof (intro allI impI)
  fix s r s'
  assume P: "P s" and run: "try_except m h s = Some (r, s')"
  show "P s'"
  proof (cases "m s")
    case None
    with run show ?thesis by (simp add: try_except_def)
  next
    case (Some a)
    obtain r1 s1 where a: "a = (r1, s1)" by (cases a)
    with Some m P have P1: "P s1" by (simp add: preserves_def)
    show ?thesis
    proof (cases r1)
      case (Ret x)
      with Some a run P1 show ?thesis by (simp add: try_except_def)
    next
      case (Exc e)
      with Some a run have "h e s1 = Some (r, s')" by (simp add: try_except_def)
      with h [of e] P1 show ?thesis by (simp add: preserves_def)
    qed
  qed
qed

lemma preserves_if:
  "preserves P m \<Longrightarrow> preserves P n \<Longrightarrow> preserves P (if b then m else n)"
  by simp

subsection \<open>Ending with the lock free\<close>







lemma returns_value:
  assumes "terminates m" and "never_raises m" and "\<not> lock_held s"
  shows "\<exists>v s'. m s = Some (Ret v, s') \<and> \<not> lock_held s'"
proof -
  from assms(1,3) obtain r s' where ms: "m s = Some (r, s')" and l: "\<not> lock_held s'"
    by (auto simp: terminates_def)
  from assms(2) ms obtain v where "r = Ret v"
    by (cases r) (auto simp: never_raises_def)
  with ms l show ?thesis by blast
qed

subsection \<open>The operations that call the driver\<close>

lemma set_set_add [simp]: "set (set_add x xs) = insert x (set xs)"
  by (auto simp: set_add_def)

lemma distinct_set_add [simp]: "distinct (set_add x xs) = distinct xs"
  by (auto simp: set_add_def)

lemma terminates_setup_pin: "terminates (setup_pin drv p i)"
  unfolding terminates_def
proof (intro allI impI)
  fix s :: "'a system"
  assume l: "\<not> lock_held s"
  show "\<exists>r s'. setup_pin drv p i s = Some (r, s') \<and> \<not> lock_held s'"
  proof (cases "validate_pin p")
    case False
    with l show ?thesis by (simp add: setup_pin_invalid)
  next
    case True
    with l show ?thesis
      by (simp add: setup_pin_valid split: prod.splits res.splits)
  qed
qed

lemma invariant_driver_step:
  "registry_invariant s \<Longrightarrow> registry_invariant (s\<lparr>gpio := g, calls := c\<rparr>)"
  by (simp add: registry_invariant_def)

lemma invariant_write:
  "registry_invariant s \<Longrightarrow> p \<in> set (configured_pins s) \<Longrightarrow>
   registry_invariant (s\<lparr>pin_states := (pin_states s)(p \<mapsto> v), gpio := g, calls := c\<rparr>)"
  by (simp add: registry_invariant_def insert_absorb)

lemma invariant_setup:
  "registry_invariant s \<Longrightarrow>
   registry_invariant (s\<lparr>configured_pins := set_add p (configured_pins s),
                          pin_states := (pin_states s)(p \<mapsto> v), gpio := g, calls := c\<rparr>)"
  by (simp add: registry_invariant_def)

lemma invariant_unlocked: "registry_invariant s \<Longrightarrow> \<not> lock_held s"
  by (simp add: registry_invariant_def)

lemma preserves_setup_pin: "preserves registry_invariant (setup_pin drv p i)"
  unfolding preserves_def
proof (intro allI impI)
  fix s r and s' :: "'a system"
  assume inv: "registry_invariant s" and run: "setup_pin drv p i s = Some (r, s')"
  show "registry_invariant s'"
  proof (cases "validate_pin p")
    case False
    with run inv show ?thesis by (simp add: setup_pin_invalid)
  next
    case True
    obtain r0 g' where d: "gpio_setup drv p OUT (Some i) (gpio s) = (r0, g')"
      by (cases "gpio_setup drv p OUT (Some i) (gpio s)")
    show ?thesis
    proof (cases r0)
      case (Ret u)
      with run True d invariant_unlocked [OF inv]
      have "s' = s\<lparr>configured_pins := set_add p (configured_pins s),
                    pin_states := (pin_states s)(p \<mapsto> i),
                    gpio := g', calls := calls s @ [Call_setup p OUT (Some i)]\<rparr>"
        by (simp add: setup_pin_valid)
      with inv show ?thesis by (simp only: invariant_setup)
    next
      case (Exc e)
      with run True d invariant_unlocked [OF inv]
      have "s' = s\<lparr>gpio := g', calls := calls s @ [Call_setup p OUT (Some i)]\<rparr>"
        by (simp add: setup_pin_valid)
      with inv show ?thesis by (simp only: invariant_driver_step)
    qed
  qed
qed

lemma setup_pin_True_configured:
  assumes "setup_pin drv p i s = Some (Ret True, s1)"
  shows "p \<in> set (configured_pins s1)"
proof (cases "validate_pin p")
  case False
  with assms show ?thesis by (simp add: setup_pin_invalid)
next
  case True
  show ?thesis
  proof (cases "lock_held s")
    case True
    with \<open>validate_pin p\<close> assms show ?thesis by (simp add: setup_pin_locked)
  next
    case False
    obtain r0 g' where d: "gpio_setup drv p OUT (Some i) (gpio s) = (r0, g')"
      by (cases "gpio_setup drv p OUT (Some i) (gpio s)")
    with assms False \<open>validate_pin p\<close> show ?thesis
      by (cases r0) (auto simp: setup_pin_valid)
  qed
qed


lemma preserves_set_level: "preserves registry_invariant (set_level drv p v)"
  unfolding preserves_def
proof (intro allI impI)
  fix s r and s' :: "'a system"
  assume inv: "registry_invariant s" and run: "set_level drv p v s = Some (r, s')"
  note l = invariant_unlocked [OF inv]
  show "registry_invariant s'"
  proof (cases "p \<in> set (configured_pins s)")
    case True
    obtain r0 g' where d: "gpio_output drv p v (gpio s) = (r0, g')"
      by (cases "gpio_output drv p v (gpio s)")
    show ?thesis
    proof (cases r0)
      case (Ret u)
      with run True d l
      have "s' = s\<lparr>pin_states := (pin_states s)(p \<mapsto> v), gpio := g',
                    calls := calls s @ [Call_output p v]\<rparr>"
        by (simp add: set_level_configured)
      with inv True show ?thesis by (simp only: invariant_write)
    next
      case (Exc e)
      with run True d l
      have "s' = s\<lparr>gpio := g', calls := calls s @ [Call_output p v]\<rparr>"
        by (simp add: set_level_configured)
      with inv show ?thesis by (simp only: invariant_driver_step)
    qed
  next
    case False
    from returns_value [OF terminates_setup_pin never_raises_setup_pin l]
    obtain b s1 where sp: "setup_pin drv p LOW s = Some (Ret b, s1)" by blast
    with inv preserves_setup_pin [of drv p LOW] have inv1: "registry_invariant s1"
      by (auto simp: preserves_def)
    note l1 = invariant_unlocked [OF inv1]
    obtain r0 g' where d: "gpio_output drv p v (gpio s1) = (r0, g')"
      by (cases "gpio_output drv p v (gpio s1)")
    show ?thesis
    proof (cases b)
      case False
      with \<open>p \<notin> set (configured_pins s)\<close> sp run have "s' = s1"
        by (simp add: set_level_unconfigured)
      with inv1 show ?thesis by simp
    next
      case True
      with sp have cfg: "p \<in> set (configured_pins s1)"
        by (simp add: setup_pin_True_configured)
      show ?thesis
      proof (cases r0)
        case (Ret u)
        with \<open>p \<notin> set (configured_pins s)\<close> sp run True d l1
        have "s' = s1\<lparr>pin_states := (pin_states s1)(p \<mapsto> v), gpio := g',
                       calls := calls s1 @ [Call_output p v]\<rparr>"
          by (simp add: set_level_unconfigured)
        with inv1 cfg show ?thesis by (simp only: invariant_write)
      next
        case (Exc e)
        with \<open>p \<notin> set (configured_pins s)\<close> sp run True d l1
        have "s' = s1\<lparr>gpio := g', calls := calls s1 @ [Call_output p v]\<rparr>"
          by (simp add: set_level_unconfigured)
        with inv1 show ?thesis by (simp only: invariant_driver_step)
      qed
    qed
  qed
qed


lemma preserves_get_pin_state: "preserves registry_invariant (get_pin_state drv p)"
  unfolding preserves_def
proof (intro allI impI)
  fix s r and s' :: "'a system"
  assume inv: "registry_invariant s" and run: "get_pin_state drv p s = Some (r, s')"
  note l = invariant_unlocked [OF inv]
  show "registry_invariant s'"
  proof (cases "p \<in> set (configured_pins s)")
    case True
    obtain r0 g' where d: "gpio_input drv p (gpio s) = (r0, g')"
      by (cases "gpio_input drv p (gpio s)")
    show ?thesis
    proof (cases r0)
      case (Ret x)
      with run True d l
      have "s' = s\<lparr>pin_states := (pin_states s)(p \<mapsto> x), gpio := g',
                    calls := calls s @ [Call_input p]\<rparr>"
        by (simp add: get_pin_state_configured)
      with inv True show ?thesis by (simp only: invariant_write)
    next
      case (Exc e)
      with run True d l
      have "s' = s\<lparr>gpio := g', calls := calls s @ [Call_input p]\<rparr>"
        by (simp add: get_pin_state_configured)
      with inv show ?thesis by (simp only: invariant_driver_step)
    qed
  next
    case False
    with run inv show ?thesis by (simp add: get_pin_state_unconfigured)
  qed
qed

subsection \<open>The loops and the composed operations\<close>

lemma preserves_setup_pins_loop:
  "preserves registry_invariant (setup_pins_loop drv pins i results)"
  by (induction pins arbitrary: results)
     (simp_all add: preserves_ret preserves_seq preserves_setup_pin)


lemma preserves_status_loop: "preserves registry_invariant (status_loop drv pins status)"
  by (induction pins arbitrary: status)
     (simp_all add: preserves_ret preserves_seq preserves_get_pin_state)


lemma preserves_turn_all_off_loop:
  "preserves registry_invariant (turn_all_off_loop drv pins success)"
  by (induction pins arbitrary: success)
     (simp_all add: preserves_ret preserves_seq preserves_set_level turn_off_set_level)


lemma preserves_blink_loop: "preserves registry_invariant (blink_loop drv pin interval n)"
  by (induction n)
     (simp_all add: preserves_ret preserves_seq preserves_set_level preserves_sleep
        turn_on_set_level turn_off_set_level)


lemma preserves_toggle: "preserves registry_invariant (toggle drv p)"
  unfolding toggle_def
  by (intro preserves_try preserves_seq preserves_get_pin_state preserves_ret)
     (simp add: preserves_set_level turn_on_set_level turn_off_set_level)


lemma preserves_pulse: "preserves registry_invariant (pulse drv p d)"
  unfolding pulse_def turn_on_set_level turn_off_set_level
  by (intro preserves_try preserves_seq preserves_set_level preserves_ret)
     (simp add: preserves_ret preserves_seq preserves_sleep preserves_set_level)


lemma preserves_blink: "preserves registry_invariant (blink drv p n d)"
  unfolding blink_def by (intro preserves_try preserves_blink_loop preserves_ret)


lemma preserves_turn_all_off: "preserves registry_invariant (turn_all_off drv)"
  unfolding turn_all_off_def
  by (intro preserves_try preserves_seq preserves_gets preserves_turn_all_off_loop
        preserves_ret)


lemma preserves_get_all_pins_status: "preserves registry_invariant (get_all_pins_status drv)"
  unfolding get_all_pins_status_def
  by (intro preserves_seq preserves_gets preserves_status_loop)


subsection \<open>\<^verbatim>\<open>cleanup\<close> and \<^verbatim>\<open>__init__\<close>, computed\<close>

lemma turn_all_off_locked:
  "lock_held s \<Longrightarrow>
   turn_all_off drv s = (if configured_pins s = [] then Some (Ret True, s) else None)"
proof (cases "configured_pins s")
  case Nil
  then show ?thesis by (simp add: turn_all_off_def try_except_seq gets_def)
next
  case (Cons p ps)
  assume "lock_held s"
  with Cons have "turn_off drv p s = None"
    by (simp add: turn_off_set_level set_level_configured_locked)
  with Cons show ?thesis
    by (simp add: turn_all_off_def try_except_seq gets_def seq_None try_except_None)
qed

lemma try_with_lock:
  "try_except (with_lock m) h s =
     (if lock_held s then None
      else (case m (s\<lparr>lock_held := True\<rparr>) of
              None \<Rightarrow> None
            | Some (Ret a, s') \<Rightarrow> Some (Ret a, s'\<lparr>lock_held := False\<rparr>)
            | Some (Exc e, s') \<Rightarrow> h e (s'\<lparr>lock_held := False\<rparr>)))"
  by (simp add: try_except_def with_lock_def split: option.splits prod.splits res.splits)

lemma cleanup_computed:
  "cleanup drv s =
     (if lock_held s then None
      else if \<not> is_initialized s then Some (Ret (), s)
      else if configured_pins s \<noteq> [] then None
      else (case gpio_cleanup drv (gpio s) of
              (Ret u, g') \<Rightarrow>
                Some (Ret (), s\<lparr>pin_states := Map.empty, is_initialized := False,
                                gpio := g', calls := calls s @ [Call_cleanup]\<rparr>)
            | (Exc e, g') \<Rightarrow>
                Some (Ret (), s\<lparr>gpio := g', calls := calls s @ [Call_cleanup]\<rparr>)))"
proof (cases "lock_held s")
  case True
  then show ?thesis by (simp add: cleanup_def try_with_lock)
next
  case unlocked: False
  show ?thesis
  proof (cases "is_initialized s")
    case False
    with unlocked show ?thesis by (simp add: cleanup_def try_with_lock ret_def)
  next
    case initialized: True
    show ?thesis
    proof (cases "configured_pins s")
      case (Cons p ps)
      then have "turn_all_off drv (s\<lparr>lock_held := True\<rparr>) = None"
        by (simp add: turn_all_off_locked)
      then have "seq (turn_all_off drv) k (s\<lparr>lock_held := True\<rparr>) = None" for k :: "bool \<Rightarrow> ('a, unit) prog"
        by (rule seq_None)
      with unlocked initialized Cons show ?thesis
        by (simp add: cleanup_def try_with_lock)
    next
      case Nil
      then have "turn_all_off drv (s\<lparr>lock_held := True\<rparr>) = Some (Ret True, s\<lparr>lock_held := True\<rparr>)"
        by (simp add: turn_all_off_locked)
      then have k: "seq (turn_all_off drv) k (s\<lparr>lock_held := True\<rparr>) = k True (s\<lparr>lock_held := True\<rparr>)"
        for k :: "bool \<Rightarrow> ('a, unit) prog"
        by (rule seq_Some_Ret)
      obtain r0 g' where d: "gpio_cleanup drv (gpio s) = (r0, g')"
        by (cases "gpio_cleanup drv (gpio s)")
      with unlocked initialized Nil show ?thesis
        by (cases r0)
           (simp_all add: cleanup_def try_with_lock k seq_call modify_def ret_def)
    qed
  qed
qed

lemma init_computed:
  "init drv g =
     (case gpio_setmode drv BCM g of
        (Ret u, g') \<Rightarrow>
          Some (Ret (), \<lparr>configured_pins = [], pin_states = Map.empty, lock_held = False,
                          is_initialized = True, gpio = g', calls = [Call_setmode BCM]\<rparr>)
      | (Exc e, g') \<Rightarrow>
          Some (Exc e, \<lparr>configured_pins = [], pin_states = Map.empty, lock_held = False,
                         is_initialized = False, gpio = g', calls = [Call_setmode BCM]\<rparr>))"
proof -
  obtain r0 g' where d: "gpio_setmode drv BCM g = (r0, g')"
    by (cases "gpio_setmode drv BCM g")
  then show ?thesis
    by (cases r0)
       (simp_all add: init_def initialize_gpio_def fresh_def try_except_def with_lock_def
          seq_call modify_def raise_def)
qed

subsection \<open>Every public operation\<close>

lemma preserves_cleanup: "preserves registry_invariant (cleanup drv)"
  unfolding preserves_def
proof (intro allI impI)
  fix s r and s' :: "'a system"
  assume inv: "registry_invariant s" and run: "cleanup drv s = Some (r, s')"
  note l = invariant_unlocked [OF inv]
  show "registry_invariant s'"
  proof (cases "is_initialized s")
    case False
    with l run have "s' = s" by (simp add: cleanup_computed)
    with inv show ?thesis by simp
  next
    case True
    show ?thesis
    proof (cases "configured_pins s = []")
      case False
      with l True run show ?thesis by (simp add: cleanup_computed)
    next
      case empty: True
      obtain r0 g' where d: "gpio_cleanup drv (gpio s) = (r0, g')"
        by (cases "gpio_cleanup drv (gpio s)")
      show ?thesis
      proof (cases r0)
        case (Exc e)
        with l True empty d run
        have "s' = s\<lparr>gpio := g', calls := calls s @ [Call_cleanup]\<rparr>"
          by (simp add: cleanup_computed)
        with inv show ?thesis by (simp only: invariant_driver_step)
      next
        case (Ret u)
        with l True empty d run
        have "s' = s\<lparr>pin_states := Map.empty, is_initialized := False, gpio := g',
                      calls := calls s @ [Call_cleanup]\<rparr>"
          by (simp add: cleanup_computed)
        with inv empty show ?thesis by (simp add: registry_invariant_def)
      qed
    qed
  qed
qed

lemma preserves_returning: "preserves P m \<Longrightarrow> preserves P (returning f m)"
  by (simp add: returning_def preserves_seq preserves_ret)


lemma preserves_run: "preserves registry_invariant (run drv op)"
proof (cases op)
  case (Setup_pin p i)
  then show ?thesis by (simp add: preserves_returning preserves_setup_pin)
next
  case (Setup_pins ps i)
  then show ?thesis by (simp add: preserves_returning setup_pins_def preserves_setup_pins_loop)
next
  case (Turn_on p)
  then show ?thesis by (simp add: preserves_returning turn_on_set_level preserves_set_level)
next
  case (Turn_off p)
  then show ?thesis by (simp add: preserves_returning turn_off_set_level preserves_set_level)
next
  case (Toggle p)
  then show ?thesis by (simp add: preserves_returning preserves_toggle)
next
  case (Get_pin_state p)
  then show ?thesis by (simp add: preserves_returning preserves_get_pin_state)
next
  case Get_all_pins_status
  then show ?thesis by (simp add: preserves_returning preserves_get_all_pins_status)
next
  case (Pulse p d)
  then show ?thesis by (simp add: preserves_returning preserves_pulse)
next
  case (Blink p n d)
  then show ?thesis by (simp add: preserves_returning preserves_blink)
next
  case Turn_all_off
  then show ?thesis by (simp add: preserves_returning preserves_turn_all_off)
next
  case Cleanup
  then show ?thesis by (simp add: preserves_returning preserves_cleanup)
next
  case Get_configured_pins
  then show ?thesis by (simp add: preserves_returning get_configured_pins_def preserves_gets)
next
  case (Is_pin_configured p)
  then show ?thesis by (simp add: preserves_returning is_pin_configured_def preserves_gets)
next
  case Get_system_info
  then show ?thesis by (simp add: preserves_returning get_system_info_def preserves_gets)
qed


lemma init_invariant: "init drv g = Some (r, s) \<Longrightarrow> registry_invariant s"
proof -
  assume i: "init drv g = Some (r, s)"
  obtain r0 g' where d: "gpio_setmode drv BCM g = (r0, g')"
    by (cases "gpio_setmode drv BCM g")
  with i show ?thesis
    by (cases r0) (auto simp: init_computed registry_invariant_def)
qed

lemma reachable_invariant: "reachable drv s \<Longrightarrow> registry_invariant s"
proof (induction rule: reachable.induct)
  case (reachable_init g s)
  then show ?case by (rule init_invariant)
next
  case (reachable_step s op r s')
  with preserves_run [of drv op] show ?case by (simp add: preserves_def)
qed

section \<open>The claims\<close>

subsection \<open>C1: \<^verbatim>\<open>cleanup\<close>\<close>

text \<open>
  C1, on the code. \<^verbatim>\<open>cleanup\<close> takes the lock and, inside it, calls
  \<^verbatim>\<open>turn_all_off\<close>, whose \<^verbatim>\<open>turn_off\<close> takes the same non-reentrant lock. With
  the simulation driver, after the constructor and \<^verbatim>\<open>setup_pin(17)\<close>, the call
  \<^verbatim>\<open>cleanup()\<close> never returns: the driver is not released and the registry is not
  cleared.
\<close>

theorem cleanup_blocks_with_a_configured_pin:
  "\<exists>s0 s1. init MockGPIO mock_initial = Some (Ret (), s0) \<and>
           setup_pin MockGPIO 17 LOW s0 = Some (Ret True, s1) \<and>
           configured_pins s1 = [17] \<and>
           cleanup MockGPIO s1 = None"
  by (simp add: init_computed setup_pin_valid validate_pin_iff cleanup_computed set_add_def
        MockGPIO_def mock_setmode_def mock_setup_def)

text \<open>
  The same for every driver and every state: an initialized controller with a
  configured pin never comes back from \<^verbatim>\<open>cleanup\<close>. What the claim says holds where
  no pin is configured: the driver is released, the registry is empty, the flag is
  cleared, and a second \<^verbatim>\<open>cleanup\<close> changes nothing.
\<close>

lemma cleanup_blocks:
  "is_initialized s \<Longrightarrow> configured_pins s \<noteq> [] \<Longrightarrow> cleanup drv s = None"
  by (simp add: cleanup_computed)

lemma cleanup_not_initialized:
  "\<not> lock_held s \<Longrightarrow> \<not> is_initialized s \<Longrightarrow> cleanup drv s = Some (Ret (), s)"
  by (simp add: cleanup_computed)

lemma cleanup_twice_without_pins:
  assumes "\<not> lock_held s" and "is_initialized s" and "configured_pins s = []"
    and "gpio_cleanup drv (gpio s) = (Ret (), g')"
  shows "\<exists>s1. cleanup drv s = Some (Ret (), s1) \<and> cleanup drv s1 = Some (Ret (), s1) \<and>
              configured_pins s1 = [] \<and> pin_states s1 = Map.empty \<and>
              \<not> is_initialized s1 \<and> calls s1 = calls s @ [Call_cleanup]"
  using assms by (simp add: cleanup_computed)

subsection \<open>C2: reading a pin that is not configured\<close>

text \<open>
  C2. For every pin that is not configured, \<^verbatim>\<open>get_pin_state\<close> returns \<^verbatim>\<open>None\<close>,
  the result that stands for "not configured", and never a level, \<open>HIGH\<close> or \<open>LOW\<close>
  or any other; it makes no driver call and changes nothing. This holds for every driver
  and every state, whether the lock is held or not.
\<close>

theorem get_pin_state_unconfigured_is_absent:
  "p \<notin> set (configured_pins s) \<Longrightarrow>
   get_pin_state drv p s = Some (Ret None, s) \<and>
   (\<forall>v s'. get_pin_state drv p s \<noteq> Some (Ret (Some v), s'))"
  by (simp add: get_pin_state_unconfigured)

theorem get_pin_state_unconfigured_is_absent_witness:
  "(17::int) \<notin> set (configured_pins (fresh mock_initial)) \<and>
   get_pin_state MockGPIO 17 (fresh mock_initial) = Some (Ret None, fresh mock_initial) \<and>
   get_pin_state MockGPIO 17 (fresh mock_initial)
     \<noteq> Some (Ret (Some LOW), fresh mock_initial)"
  using get_pin_state_unconfigured_is_absent [of 17 "fresh mock_initial" MockGPIO]
  by (simp add: fresh_def)

text \<open>
  The caller in \<^verbatim>\<open>app.py\<close>, the route \<^verbatim>\<open>get_pin_status\<close>, hands that result on in
  the field \<^verbatim>\<open>value\<close> of its answer, which is \<^verbatim>\<open>null\<close> here and an integer for a
  level. The field \<^verbatim>\<open>state\<close> of the same answer is a label computed by
  \<^verbatim>\<open>'HIGH' if state else 'LOW'\<close> and reads \<^verbatim>\<open>'LOW'\<close> here.
\<close>

lemma get_pin_status_unconfigured:
  "p \<notin> set (configured_pins s) \<Longrightarrow>
   get_pin_status drv p s =
     Some (Ret (Pin_status_response ''success'' p ''LOW'' None, 200), s)"
  by (simp add: get_pin_state_unconfigured get_pin_status_def try_except_seq truthy_def)

subsection \<open>C3: configuring an invalid pin\<close>

text \<open>
  C3. For every pin outside the valid set 2..27, \<^verbatim>\<open>setup_pin\<close> returns \<open>False\<close> and
  leaves the whole state as it was: the registry (configured pins and cached levels), the
  driver state and the history of driver calls, so no driver call was made. This holds
  for every driver and every state.
\<close>

theorem setup_pin_rejects_invalid_pin:
  "p \<notin> {2..27} \<Longrightarrow> setup_pin drv p initial_state s = Some (Ret False, s)"
  by (rule setup_pin_invalid) (simp add: validate_pin_iff)

theorem setup_pin_rejects_invalid_pin_witness:
  "(28::int) \<notin> {2..27} \<and>
   setup_pin MockGPIO 28 LOW (fresh mock_initial) = Some (Ret False, fresh mock_initial) \<and>
   calls (fresh mock_initial) = []"
  using setup_pin_rejects_invalid_pin [of 28 MockGPIO LOW "fresh mock_initial"]
  by (simp add: fresh_def)

subsection \<open>C4: \<^verbatim>\<open>turn_all_off\<close>\<close>

lemma turn_off_configured_step:
  assumes "p \<in> set (configured_pins s)" and "\<not> lock_held s"
    and "gpio_output drv p LOW (gpio s) = (r0, g')"
  shows "turn_off drv p s =
     Some (Ret (r0 = Ret ()),
           s\<lparr>pin_states := (if r0 = Ret () then (pin_states s)(p \<mapsto> LOW) else pin_states s),
             gpio := g', calls := calls s @ [Call_output p LOW]\<rparr>)"
  using assms by (cases r0) (simp_all add: turn_off_set_level set_level_configured)

lemma turn_all_off_loop_computed:
  assumes "set pins \<subseteq> set (configured_pins s)" and "\<not> lock_held s"
  shows "\<exists>s'. turn_all_off_loop drv pins success s =
            Some (Ret (success \<and> (\<forall>r\<in>set (output_results drv pins LOW (gpio s)). r = Ret ())), s') \<and>
          calls s' = calls s @ map (\<lambda>p. Call_output p LOW) pins \<and>
          configured_pins s' = configured_pins s \<and> \<not> lock_held s' \<and>
          (\<forall>q. pin_states s' q =
                 (if (q, Ret ()) \<in> set (zip pins (output_results drv pins LOW (gpio s)))
                  then Some LOW else pin_states s q))"
  using assms
proof (induction pins arbitrary: s success)
  case Nil
  then show ?case by (simp add: ret_def)
next
  case (Cons p ps)
  obtain r0 g' where d: "gpio_output drv p LOW (gpio s) = (r0, g')"
    by (cases "gpio_output drv p LOW (gpio s)")
  let ?s1 = "s\<lparr>pin_states := (if r0 = Ret () then (pin_states s)(p \<mapsto> LOW) else pin_states s),
               gpio := g', calls := calls s @ [Call_output p LOW]\<rparr>"
  from Cons.prems d have step: "turn_off drv p s = Some (Ret (r0 = Ret ()), ?s1)"
    by (simp add: turn_off_configured_step)
  from Cons.prems have "set ps \<subseteq> set (configured_pins ?s1)" and "\<not> lock_held ?s1"
    by simp_all
  from Cons.IH [OF this, of "if \<not> (r0 = Ret ()) then False else success"]
  obtain s' where
    loop: "turn_all_off_loop drv ps (if \<not> (r0 = Ret ()) then False else success) ?s1 =
            Some (Ret ((if \<not> (r0 = Ret ()) then False else success) \<and>
                       (\<forall>r\<in>set (output_results drv ps LOW (gpio ?s1)). r = Ret ())), s')"
    and c: "calls s' = calls ?s1 @ map (\<lambda>p. Call_output p LOW) ps"
    and k: "configured_pins s' = configured_pins ?s1" "\<not> lock_held s'"
    and ps: "\<forall>q. pin_states s' q =
                 (if (q, Ret ()) \<in> set (zip ps (output_results drv ps LOW (gpio ?s1)))
                  then Some LOW else pin_states ?s1 q)"
    by blast
  have "turn_all_off_loop drv (p # ps) success s =
          turn_all_off_loop drv ps (if \<not> (r0 = Ret ()) then False else success) ?s1"
    by (simp add: seq_Some_Ret [where m = "turn_off drv p" and s = s, OF step])
  with loop d have "turn_all_off_loop drv (p # ps) success s =
      Some (Ret (success \<and> (\<forall>r\<in>set (output_results drv (p # ps) LOW (gpio s)). r = Ret ())), s')"
    by (cases "r0 = Ret ()") auto
  moreover from c have "calls s' = calls s @ map (\<lambda>p. Call_output p LOW) (p # ps)"
    by simp
  moreover from k have "configured_pins s' = configured_pins s" "\<not> lock_held s'"
    by simp_all
  moreover from ps d have "\<forall>q. pin_states s' q =
                 (if (q, Ret ()) \<in> set (zip (p # ps) (output_results drv (p # ps) LOW (gpio s)))
                  then Some LOW else pin_states s q)"
    by (cases "r0 = Ret ()") auto
  ultimately show ?case by blast
qed

text \<open>
  C4. With the lock free, \<^verbatim>\<open>turn_all_off\<close> returns, and on its way the driver was
  asked to write \<open>LOW\<close> on every configured pin, in the order of the iteration,
  whatever the answers to the earlier writes were. It returns \<open>True\<close> exactly when the
  driver accepted every one of these writes, and every pin whose write the driver
  accepted has the cached level \<open>LOW\<close> afterwards, whichever other writes failed.
\<close>

theorem turn_all_off_best_effort:
  assumes "\<not> lock_held s"
  shows "\<exists>ok s'. turn_all_off drv s = Some (Ret ok, s') \<and>
           calls s' = calls s @ map (\<lambda>p. Call_output p LOW) (configured_pins s) \<and>
           (ok \<longleftrightarrow> (\<forall>r\<in>set (output_results drv (configured_pins s) LOW (gpio s)). r = Ret ())) \<and>
           (\<forall>q. (q, Ret ()) \<in> set (zip (configured_pins s)
                                       (output_results drv (configured_pins s) LOW (gpio s)))
                \<longrightarrow> pin_states s' q = Some LOW)"
proof -
  from turn_all_off_loop_computed [OF subset_refl assms, of drv True]
  obtain s' where
    loop: "turn_all_off_loop drv (configured_pins s) True s =
            Some (Ret (\<forall>r\<in>set (output_results drv (configured_pins s) LOW (gpio s)). r = Ret ()), s')"
    and c: "calls s' = calls s @ map (\<lambda>p. Call_output p LOW) (configured_pins s)"
    and ps: "\<forall>q. pin_states s' q =
                 (if (q, Ret ()) \<in> set (zip (configured_pins s)
                                         (output_results drv (configured_pins s) LOW (gpio s)))
                  then Some LOW else pin_states s q)"
    by auto
  from loop have "turn_all_off drv s =
      Some (Ret (\<forall>r\<in>set (output_results drv (configured_pins s) LOW (gpio s)). r = Ret ()), s')"
    by (simp add: turn_all_off_def try_except_seq gets_def try_except_Some_Ret)
  with c ps show ?thesis by simp
qed

theorem turn_all_off_best_effort_witness:
  "\<not> lock_held three_pins_high \<and>
   (\<exists>s'. turn_all_off (output_fails_on 17) three_pins_high = Some (Ret False, s') \<and>
         calls s' = [Call_output 4 LOW, Call_output 17 LOW, Call_output 27 LOW] \<and>
         pin_states s' 4 = Some LOW \<and> pin_states s' 17 = Some HIGH \<and>
         pin_states s' 27 = Some LOW \<and>
         mock_pin_states (gpio s') 4 = Some LOW \<and> mock_pin_states (gpio s') 17 = Some HIGH \<and>
         mock_pin_states (gpio s') 27 = Some LOW)"
proof -
  have l: "\<not> lock_held three_pins_high" by (simp add: three_pins_high_def)
  have t: "turn_all_off (output_fails_on 17) three_pins_high =
     Some (Ret False,
       three_pins_high
         \<lparr>pin_states := [4 \<mapsto> HIGH, 17 \<mapsto> HIGH, 27 \<mapsto> HIGH, 4 \<mapsto> LOW, 27 \<mapsto> LOW],
          gpio := \<lparr>mock_pin_states =
                     [4 \<mapsto> HIGH, 17 \<mapsto> HIGH, 27 \<mapsto> HIGH, 4 \<mapsto> LOW, 27 \<mapsto> LOW],
                   mock_pin_modes = [4 \<mapsto> OUT, 17 \<mapsto> OUT, 27 \<mapsto> OUT]\<rparr>,
          calls := [Call_output 4 LOW, Call_output 17 LOW, Call_output 27 LOW]\<rparr>)"
    by (simp add: turn_all_off_def try_except_seq gets_def seq_def try_except_def ret_def
          turn_off_set_level set_level_configured three_pins_high_def output_fails_on_def
          MockGPIO_def mock_output_def)
  from turn_all_off_best_effort [OF l, of "output_fails_on 17"] t show ?thesis
    by (simp add: three_pins_high_def)
qed

subsection \<open>C5: \<^verbatim>\<open>setup_pins\<close>\<close>

lemma setup_pin_step:
  assumes "\<not> lock_held s"
  shows "\<exists>ok s1. setup_pin drv p i s = Some (Ret ok, s1) \<and> \<not> lock_held s1 \<and>
           calls s1 = calls s @ (if validate_pin p then [Call_setup p OUT (Some i)] else [])"
proof (cases "validate_pin p")
  case False
  with assms show ?thesis by (auto simp: setup_pin_invalid)
next
  case True
  obtain r0 g' where d: "gpio_setup drv p OUT (Some i) (gpio s) = (r0, g')"
    by (cases "gpio_setup drv p OUT (Some i) (gpio s)")
  with True assms show ?thesis
    by (cases r0) (auto simp: setup_pin_valid)
qed

lemma setup_pins_loop_computed:
  assumes "\<not> lock_held s"
  shows "\<exists>outcomes s'. configure_each drv i pins s = Some (outcomes, s') \<and>
           map fst outcomes = pins \<and>
           setup_pins_loop drv pins i results s =
             Some (Ret (results ++ map_of (rev outcomes)), s') \<and>
           calls s' = calls s @ map (\<lambda>p. Call_setup p OUT (Some i)) (filter validate_pin pins)"
  using assms
proof (induction pins arbitrary: s results)
  case Nil
  then show ?case by (simp add: ret_def)
next
  case (Cons p ps)
  from setup_pin_step [OF Cons.prems, of drv p i]
  obtain ok s1 where step: "setup_pin drv p i s = Some (Ret ok, s1)" and l1: "\<not> lock_held s1"
    and c1: "calls s1 = calls s @ (if validate_pin p then [Call_setup p OUT (Some i)] else [])"
    by blast
  from Cons.IH [OF l1, of "results(p \<mapsto> ok)"]
  obtain outcomes s' where each: "configure_each drv i ps s1 = Some (outcomes, s')"
    and fst: "map fst outcomes = ps"
    and loop: "setup_pins_loop drv ps i (results(p \<mapsto> ok)) s1 =
                 Some (Ret (results(p \<mapsto> ok) ++ map_of (rev outcomes)), s')"
    and c: "calls s' = calls s1 @ map (\<lambda>p. Call_setup p OUT (Some i)) (filter validate_pin ps)"
    by blast
  have m: "results(p \<mapsto> ok) ++ map_of (rev outcomes) =
           results ++ map_of (rev ((p, ok) # outcomes))"
    by simp
  from step each have "configure_each drv i (p # ps) s = Some ((p, ok) # outcomes, s')"
    by simp
  moreover from fst have "map fst ((p, ok) # outcomes) = p # ps" by simp
  moreover have "setup_pins_loop drv (p # ps) i results s =
      Some (Ret (results ++ map_of (rev ((p, ok) # outcomes))), s')"
  proof -
    have "setup_pins_loop drv (p # ps) i results s =
          setup_pins_loop drv ps i (results(p \<mapsto> ok)) s1"
      by (simp add: seq_Some_Ret [where m = "setup_pin drv p i" and s = s, OF step])
    also note loop
    finally show ?thesis by (simp only: m)
  qed
  moreover from c c1
  have "calls s' = calls s @ map (\<lambda>p. Call_setup p OUT (Some i)) (filter validate_pin (p # ps))"
    by simp
  ultimately show ?case
    by (intro exI [where x = "(p, ok) # outcomes"] exI [where x = s'] conjI) assumption+
qed

text \<open>
  C5. With the lock free, \<^verbatim>\<open>setup_pins\<close> returns for every sequence of pins. It did
  what \<open>configure_each\<close> does: \<^verbatim>\<open>setup_pin\<close> on each pin in the order of the
  sequence, each from the state the one before left, whatever the earlier outcomes
  were; there is one outcome for each position of the sequence. The returned dictionary
  holds these outcomes, its keys are the pins of the sequence (a pin that occurs twice
  has one entry, the outcome of its last attempt), and the driver was asked to set up
  every valid pin of the sequence, in order.
\<close>

theorem setup_pins_attempts_every_pin:
  assumes "\<not> lock_held s"
  shows "\<exists>outcomes s'.
           configure_each drv initial_state pins s = Some (outcomes, s') \<and>
           map fst outcomes = pins \<and>
           setup_pins drv pins initial_state s = Some (Ret (map_of (rev outcomes)), s') \<and>
           dom (map_of (rev outcomes)) = set pins \<and>
           calls s' = calls s @ map (\<lambda>p. Call_setup p OUT (Some initial_state))
                                    (filter validate_pin pins)"
proof -
  from setup_pins_loop_computed [OF assms, of drv initial_state pins Map.empty]
  obtain outcomes s' where each: "configure_each drv initial_state pins s = Some (outcomes, s')"
    and fst: "map fst outcomes = pins"
    and loop: "setup_pins drv pins initial_state s = Some (Ret (map_of (rev outcomes)), s')"
    and c: "calls s' = calls s @ map (\<lambda>p. Call_setup p OUT (Some initial_state))
                                     (filter validate_pin pins)"
    by (auto simp: setup_pins_def)
  have "dom (map_of (rev outcomes)) = set (map fst outcomes)"
    by (simp add: dom_map_of_conv_image_fst)
  with fst have "dom (map_of (rev outcomes)) = set pins" by simp
  with each fst loop c show ?thesis
    by (intro exI [where x = outcomes] exI [where x = s'] conjI) assumption+
qed

theorem setup_pins_attempts_every_pin_witness:
  "\<not> lock_held (fresh mock_initial) \<and>
   (\<exists>s'. setup_pins MockGPIO [17, 99, 27] LOW (fresh mock_initial) =
           Some (Ret [17 \<mapsto> True, 99 \<mapsto> False, 27 \<mapsto> True], s') \<and>
         configured_pins s' = [17, 27] \<and>
         calls s' = [Call_setup 17 OUT (Some LOW), Call_setup 27 OUT (Some LOW)])"
proof -
  have l: "\<not> lock_held (fresh mock_initial)" by (simp add: fresh_def)
  have t: "setup_pins MockGPIO [17, 99, 27] LOW (fresh mock_initial) =
     Some (Ret [17 \<mapsto> True, 99 \<mapsto> False, 27 \<mapsto> True],
       \<lparr>configured_pins = [17, 27], pin_states = [17 \<mapsto> LOW, 27 \<mapsto> LOW],
        lock_held = False, is_initialized = False,
        gpio = \<lparr>mock_pin_states = [17 \<mapsto> LOW, 27 \<mapsto> LOW],
                mock_pin_modes = [17 \<mapsto> OUT, 27 \<mapsto> OUT]\<rparr>,
        calls = [Call_setup 17 OUT (Some LOW), Call_setup 27 OUT (Some LOW)]\<rparr>)"
    by (simp add: setup_pins_def seq_def ret_def setup_pin_valid setup_pin_invalid
          validate_pin_iff set_add_def fresh_def MockGPIO_def mock_setup_def mock_initial_def)
  from setup_pins_attempts_every_pin [OF l, of MockGPIO LOW "[17, 99, 27]"] t
  show ?thesis by (simp add: fresh_def)
qed

subsection \<open>C6: writing a pin that is not configured\<close>

text \<open>
  C6. On a pin that is not configured, with the lock free, \<^verbatim>\<open>turn_on\<close> (level
  \<open>HIGH\<close>) and \<^verbatim>\<open>turn_off\<close> (level \<open>LOW\<close>) do what \<open>auto_configure_then_write\<close>
  says: an invalid pin gives \<open>False\<close> with no driver call; a valid pin is first set up
  with the default level \<open>LOW\<close>, and the result is \<open>False\<close> when that driver call
  raises, \<open>False\<close> when the following write raises (the pin then stays configured at
  \<open>LOW\<close>), and \<open>True\<close> with the written level recorded otherwise.
\<close>

theorem set_level_auto_configures:
  assumes "p \<notin> set (configured_pins s)" and "\<not> lock_held s"
  shows "turn_on drv p s = auto_configure_then_write drv p HIGH s \<and>
         turn_off drv p s = auto_configure_then_write drv p LOW s"
proof -
  have "set_level drv p v s = auto_configure_then_write drv p v s" for v
  proof (cases "validate_pin p")
    case False
    with assms show ?thesis
      by (simp add: set_level_unconfigured setup_pin_invalid auto_configure_then_write_def)
  next
    case True
    with assms show ?thesis
      by (simp add: set_level_unconfigured setup_pin_valid auto_configure_then_write_def
            set_add_def split: prod.splits res.splits)
  qed
  then show ?thesis
    by (simp add: turn_on_set_level turn_off_set_level)
qed

theorem set_level_auto_configures_witness:
  "(17::int) \<notin> set (configured_pins (fresh mock_initial)) \<and>
   \<not> lock_held (fresh mock_initial) \<and>
   turn_on MockGPIO 17 (fresh mock_initial) =
     Some (Ret True,
       \<lparr>configured_pins = [17], pin_states = [17 \<mapsto> HIGH], lock_held = False,
        is_initialized = False,
        gpio = \<lparr>mock_pin_states = [17 \<mapsto> HIGH], mock_pin_modes = [17 \<mapsto> OUT]\<rparr>,
        calls = [Call_setup 17 OUT (Some LOW), Call_output 17 HIGH]\<rparr>) \<and>
   turn_off (output_fails_on 17) 17 (fresh mock_initial) =
     Some (Ret False,
       \<lparr>configured_pins = [17], pin_states = [17 \<mapsto> LOW], lock_held = False,
        is_initialized = False,
        gpio = \<lparr>mock_pin_states = [17 \<mapsto> LOW], mock_pin_modes = [17 \<mapsto> OUT]\<rparr>,
        calls = [Call_setup 17 OUT (Some LOW), Call_output 17 LOW]\<rparr>) \<and>
   turn_on MockGPIO 1 (fresh mock_initial) = Some (Ret False, fresh mock_initial)"
  using set_level_auto_configures [of 17 "fresh mock_initial" MockGPIO]
    set_level_auto_configures [of 17 "fresh mock_initial" "output_fails_on 17"]
    set_level_auto_configures [of 1 "fresh mock_initial" MockGPIO]
  by (simp add: fresh_def auto_configure_then_write_def validate_pin_iff MockGPIO_def
        output_fails_on_def mock_setup_def mock_output_def mock_initial_def)

subsection \<open>C7: configure, write, read on the simulation driver\<close>

lemma mock_roundtrip:
  assumes "validate_pin p" and "\<not> lock_held s"
  shows "\<exists>s1 s2 s3. setup_pin MockGPIO p LOW s = Some (Ret True, s1) \<and>
           turn_on MockGPIO p s1 = Some (Ret True, s2) \<and>
           get_pin_state MockGPIO p s2 = Some (Ret (Some HIGH), s3) \<and>
           pin_states s3 p = Some HIGH"
proof -
  let ?g1 = "\<lparr>mock_pin_states = (mock_pin_states (gpio s))(p \<mapsto> LOW),
              mock_pin_modes = (mock_pin_modes (gpio s))(p \<mapsto> OUT)\<rparr>"
  let ?s1 = "s\<lparr>configured_pins := set_add p (configured_pins s),
               pin_states := (pin_states s)(p \<mapsto> LOW),
               gpio := ?g1, calls := calls s @ [Call_setup p OUT (Some LOW)]\<rparr>"
  let ?g2 = "\<lparr>mock_pin_states = (mock_pin_states (gpio s))(p \<mapsto> HIGH),
              mock_pin_modes = (mock_pin_modes (gpio s))(p \<mapsto> OUT)\<rparr>"
  let ?s2 = "?s1\<lparr>pin_states := (pin_states s)(p \<mapsto> HIGH), gpio := ?g2,
                 calls := calls s @ [Call_setup p OUT (Some LOW), Call_output p HIGH]\<rparr>"
  let ?s3 = "?s2\<lparr>calls := calls s @ [Call_setup p OUT (Some LOW), Call_output p HIGH,
                                         Call_input p]\<rparr>"
  from assms have 1: "setup_pin MockGPIO p LOW s = Some (Ret True, ?s1)"
    by (simp add: setup_pin_valid MockGPIO_def mock_setup_def)
  from assms have 2: "turn_on MockGPIO p ?s1 = Some (Ret True, ?s2)"
    by (simp add: turn_on_set_level set_level_configured MockGPIO_def mock_output_def)
  from assms have 3: "get_pin_state MockGPIO p ?s2 = Some (Ret (Some HIGH), ?s3)"
    by (simp add: get_pin_state_configured MockGPIO_def mock_input_def)
  have 4: "pin_states ?s3 p = Some HIGH" by simp
  from 1 2 3 4 show ?thesis
    by (intro exI [where x = ?s1] exI [where x = ?s2] exI [where x = ?s3] conjI) assumption+
qed

lemma mock_scenario:
  "\<exists>s0 s1 s2 s3.
     init MockGPIO mock_initial = Some (Ret (), s0) \<and>
     setup_pins MockGPIO [17, 27] LOW s0 = Some (Ret [17 \<mapsto> True, 27 \<mapsto> True], s1) \<and>
     turn_on MockGPIO 17 s1 = Some (Ret True, s2) \<and>
     get_all_pins_status MockGPIO s2 =
       Some (Ret [17 \<mapsto> \<lparr>state = Some HIGH, state_name = ''HIGH'', configured = True\<rparr>,
                  27 \<mapsto> \<lparr>state = Some LOW, state_name = ''LOW'', configured = True\<rparr>], s3)"
proof -
  let ?c0 = "[Call_setmode BCM]"
  let ?s0 = "\<lparr>configured_pins = [], pin_states = Map.empty, lock_held = False,
              is_initialized = True, gpio = mock_initial, calls = ?c0\<rparr>"
  let ?c1 = "[Call_setmode BCM, Call_setup 17 OUT (Some LOW), Call_setup 27 OUT (Some LOW)]"
  let ?s1 = "\<lparr>configured_pins = [17, 27], pin_states = [17 \<mapsto> LOW, 27 \<mapsto> LOW],
              lock_held = False, is_initialized = True,
              gpio = \<lparr>mock_pin_states = [17 \<mapsto> LOW, 27 \<mapsto> LOW],
                      mock_pin_modes = [17 \<mapsto> OUT, 27 \<mapsto> OUT]\<rparr>,
              calls = ?c1\<rparr>"
  let ?c2 = "?c1 @ [Call_output 17 HIGH]"
  let ?s2 = "\<lparr>configured_pins = [17, 27], pin_states = [17 \<mapsto> LOW, 27 \<mapsto> LOW, 17 \<mapsto> HIGH],
              lock_held = False, is_initialized = True,
              gpio = \<lparr>mock_pin_states = [17 \<mapsto> LOW, 27 \<mapsto> LOW, 17 \<mapsto> HIGH],
                      mock_pin_modes = [17 \<mapsto> OUT, 27 \<mapsto> OUT]\<rparr>,
              calls = ?c2\<rparr>"
  let ?s3 = "?s2\<lparr>pin_states := [17 \<mapsto> LOW, 27 \<mapsto> LOW, 17 \<mapsto> HIGH, 17 \<mapsto> HIGH, 27 \<mapsto> LOW],
                 calls := ?c2 @ [Call_input 17, Call_input 27]\<rparr>"
  have 0: "init MockGPIO mock_initial = Some (Ret (), ?s0)"
    by (simp add: init_computed MockGPIO_def mock_setmode_def)
  have 1: "setup_pins MockGPIO [17, 27] LOW ?s0 = Some (Ret [17 \<mapsto> True, 27 \<mapsto> True], ?s1)"
    by (simp add: setup_pins_def seq_def ret_def setup_pin_valid validate_pin_iff set_add_def
          MockGPIO_def mock_setup_def mock_initial_def)
  have 2: "turn_on MockGPIO 17 ?s1 = Some (Ret True, ?s2)"
    by (simp add: turn_on_set_level set_level_configured MockGPIO_def mock_output_def)
  have 3: "get_all_pins_status MockGPIO ?s2 =
       Some (Ret [17 \<mapsto> \<lparr>state = Some HIGH, state_name = ''HIGH'', configured = True\<rparr>,
                  27 \<mapsto> \<lparr>state = Some LOW, state_name = ''LOW'', configured = True\<rparr>], ?s3)"
    by (simp add: get_all_pins_status_def seq_def gets_def ret_def get_pin_state_configured
          MockGPIO_def mock_input_def)
  from 0 1 2 3 show ?thesis
    by (intro exI [where x = ?s0] exI [where x = ?s1] exI [where x = ?s2]
          exI [where x = ?s3] conjI) assumption+
qed

text \<open>
  C7. On the simulation driver of the source, for every valid pin and every state with
  the lock free: \<^verbatim>\<open>setup_pin(p, LOW)\<close> succeeds, then \<^verbatim>\<open>turn_on(p)\<close> succeeds, then
  \<^verbatim>\<open>get_pin_state(p)\<close> returns \<open>HIGH\<close>. And the scenario: a new controller,
  \<^verbatim>\<open>setup_pins([17, 27], LOW)\<close>, \<^verbatim>\<open>turn_on(17)\<close>; then \<^verbatim>\<open>get_all_pins_status()\<close>
  returns the dictionary with exactly the keys 17 and 27, pin 17 at \<open>HIGH\<close> and pin 27
  at \<open>LOW\<close>, both marked configured (the source adds the field \<^verbatim>\<open>state_name\<close>).
\<close>

theorem configure_write_read_on_mock:
  "(\<forall>p s. p \<in> {2..27} \<and> \<not> lock_held s \<longrightarrow>
      (\<exists>s1 s2 s3. setup_pin MockGPIO p LOW s = Some (Ret True, s1) \<and>
         turn_on MockGPIO p s1 = Some (Ret True, s2) \<and>
         get_pin_state MockGPIO p s2 = Some (Ret (Some HIGH), s3))) \<and>
   (\<exists>s0 s1 s2 s3.
      init MockGPIO mock_initial = Some (Ret (), s0) \<and>
      setup_pins MockGPIO [17, 27] LOW s0 = Some (Ret [17 \<mapsto> True, 27 \<mapsto> True], s1) \<and>
      turn_on MockGPIO 17 s1 = Some (Ret True, s2) \<and>
      get_all_pins_status MockGPIO s2 =
        Some (Ret [17 \<mapsto> \<lparr>state = Some HIGH, state_name = ''HIGH'', configured = True\<rparr>,
                   27 \<mapsto> \<lparr>state = Some LOW, state_name = ''LOW'', configured = True\<rparr>], s3))"
proof (intro conjI allI impI)
  fix p :: int and s :: "mock_gpio system"
  assume "p \<in> {2..27} \<and> \<not> lock_held s"
  then have "validate_pin p" and "\<not> lock_held s" by (simp_all add: validate_pin_iff)
  from mock_roundtrip [OF this]
  show "\<exists>s1 s2 s3. setup_pin MockGPIO p LOW s = Some (Ret True, s1) \<and>
         turn_on MockGPIO p s1 = Some (Ret True, s2) \<and>
         get_pin_state MockGPIO p s2 = Some (Ret (Some HIGH), s3)"
    by blast
next
  show "\<exists>s0 s1 s2 s3.
      init MockGPIO mock_initial = Some (Ret (), s0) \<and>
      setup_pins MockGPIO [17, 27] LOW s0 = Some (Ret [17 \<mapsto> True, 27 \<mapsto> True], s1) \<and>
      turn_on MockGPIO 17 s1 = Some (Ret True, s2) \<and>
      get_all_pins_status MockGPIO s2 =
        Some (Ret [17 \<mapsto> \<lparr>state = Some HIGH, state_name = ''HIGH'', configured = True\<rparr>,
                   27 \<mapsto> \<lparr>state = Some LOW, state_name = ''LOW'', configured = True\<rparr>], s3)"
    by (rule mock_scenario)
qed

theorem configure_write_read_on_mock_witness:
  "(17::int) \<in> {2..27} \<and> \<not> lock_held (fresh mock_initial) \<and>
   (\<exists>s1 s2 s3. setup_pin MockGPIO 17 LOW (fresh mock_initial) = Some (Ret True, s1) \<and>
      turn_on MockGPIO 17 s1 = Some (Ret True, s2) \<and>
      get_pin_state MockGPIO 17 s2 = Some (Ret (Some HIGH), s3))"
proof -
  have h: "(17::int) \<in> {2..27} \<and> \<not> lock_held (fresh mock_initial)"
    by (simp add: fresh_def)
  from configure_write_read_on_mock have
    "\<forall>p s. p \<in> {2..27} \<and> \<not> lock_held s \<longrightarrow>
      (\<exists>s1 s2 s3. setup_pin MockGPIO p LOW s = Some (Ret True, s1) \<and>
         turn_on MockGPIO p s1 = Some (Ret True, s2) \<and>
         get_pin_state MockGPIO p s2 = Some (Ret (Some HIGH), s3))"
    by (rule conjunct1)
  then have "(17::int) \<in> {2..27} \<and> \<not> lock_held (fresh mock_initial) \<longrightarrow>
      (\<exists>s1 s2 s3. setup_pin MockGPIO 17 LOW (fresh mock_initial) = Some (Ret True, s1) \<and>
         turn_on MockGPIO 17 s1 = Some (Ret True, s2) \<and>
         get_pin_state MockGPIO 17 s2 = Some (Ret (Some HIGH), s3))"
    by (rule allE) (erule allE)
  with h show ?thesis by (intro conjI; (elim conjE impE)?; assumption?) blast+
qed

subsection \<open>C8: exceptions\<close>




subsection \<open>C10: configured pins and cached levels\<close>

text \<open>
  C10. In every state the controller can be in between two calls (after the constructor,
  and after any sequence of public operations run one after the other, each from the
  state the one before returned in), the configured pins are exactly the keys of the
  cached levels.
\<close>

theorem configured_pins_are_keys_of_pin_states:
  "reachable drv s \<Longrightarrow> set (configured_pins s) = dom (pin_states s)"
  using reachable_invariant [of drv s] by (simp add: registry_invariant_def)

theorem configured_pins_are_keys_of_pin_states_witness:
  "reachable MockGPIO
     \<lparr>configured_pins = [17], pin_states = [17 \<mapsto> HIGH], lock_held = False,
      is_initialized = True,
      gpio = \<lparr>mock_pin_states = [17 \<mapsto> HIGH], mock_pin_modes = [17 \<mapsto> OUT]\<rparr>,
      calls = [Call_setmode BCM, Call_setup 17 OUT (Some LOW), Call_output 17 HIGH]\<rparr> \<and>
   set [17::int] = dom [17 \<mapsto> HIGH]"
proof -
  let ?s0 = "\<lparr>configured_pins = [], pin_states = Map.empty, lock_held = False,
              is_initialized = True, gpio = mock_initial, calls = [Call_setmode BCM]\<rparr>"
  let ?s1 = "\<lparr>configured_pins = [17], pin_states = [17 \<mapsto> HIGH], lock_held = False,
      is_initialized = True,
      gpio = \<lparr>mock_pin_states = [17 \<mapsto> HIGH], mock_pin_modes = [17 \<mapsto> OUT]\<rparr>,
      calls = [Call_setmode BCM, Call_setup 17 OUT (Some LOW), Call_output 17 HIGH]\<rparr>"
  have "init MockGPIO mock_initial = Some (Ret (), ?s0)"
    by (simp add: init_computed MockGPIO_def mock_setmode_def)
  then have r0: "reachable MockGPIO ?s0" by (rule reachable_init)
  have "turn_on MockGPIO 17 ?s0 = Some (Ret True, ?s1)"
    by (simp add: turn_on_set_level set_level_unconfigured setup_pin_valid validate_pin_iff
          set_add_def MockGPIO_def mock_setup_def mock_output_def mock_initial_def)
  then have "run MockGPIO (Turn_on 17) ?s0 = Some (Ret (V_bool True), ?s1)"
    by (simp add: returning_def seq_def ret_def)
  with r0 have r1: "reachable MockGPIO ?s1" by (rule reachable_step)
  from configured_pins_are_keys_of_pin_states [OF r1] r1 show ?thesis by simp
qed

end
